theory Spec2Isabelle
  imports Main "HOL-Library.Word" "HOL-Library.Sublist"
begin

section \<open>Raw nested data\<close>

text \<open>
  The values a query runs over are what a JSON or YAML decoder returns: \<open>None\<close>, booleans,
  integers, floats, strings, dictionaries and sequences; anything else is an opaque object.
  A dictionary is an association list in insertion order (the order \<open>dict.items()\<close> yields);
  the three sequence classes that \<open>Element._build\<close> treats alike (\<open>list\<close>, \<open>tuple\<close>,
  \<open>set\<close>) are one constructor carrying the class and the items in iteration order.
  A float is its 64-bit pattern; an opaque object is a handle.
\<close>

datatype seqkind = ListK | TupleK | SetK

datatype pyval =
    PNone
  | PBool bool
  | PInt int
  | PFloat "64 word"
  | PStr string
  | PDict "(pyval \<times> pyval) list"
  | PSeq seqkind "pyval list"
  | PObj nat

datatype py_error =
    TypeError
  | ValueError
  | IndexError
  | KeyError
  | AttributeError
  | ReError
  | RegexConversionError
  | LookupClsError
  | ValidationError

text \<open>Python dictionaries never hold one key twice; \<open>wf_data\<close> says so at every level.\<close>

fun wf_data :: "pyval \<Rightarrow> bool"
  and wf_items :: "(pyval \<times> pyval) list \<Rightarrow> bool"
  and wf_seq :: "pyval list \<Rightarrow> bool" where
  "wf_data (PDict kvs) = (distinct (map fst kvs) \<and> wf_items kvs)"
| "wf_data (PSeq k xs) = wf_seq xs"
| "wf_data PNone = True"
| "wf_data (PBool b) = True"
| "wf_data (PInt n) = True"
| "wf_data (PFloat w) = True"
| "wf_data (PStr s) = True"
| "wf_data (PObj h) = True"
| "wf_items [] = True"
| "wf_items (kv # kvs) = (wf_data (snd kv) \<and> wf_items kvs)"
| "wf_seq [] = True"
| "wf_seq (x # xs) = (wf_data x \<and> wf_seq xs)"

section \<open>Decimal rendering of a position\<close>

definition digit_char :: "nat \<Rightarrow> char" where
  "digit_char d = char_of (48 + d)"

fun str_nat :: "nat \<Rightarrow> string" where
  "str_nat n = (if n < 10 then [digit_char n] else str_nat (n div 10) @ [digit_char (n mod 10)])"

declare str_nat.simps [simp del]

text \<open>Reading decimal digits back: the value of a digit, and of a string of digits.\<close>

definition is_digit :: "char \<Rightarrow> bool" where
  "is_digit c = (c \<in> set ''0123456789'')"

definition digit_val :: "char \<Rightarrow> nat" where
  "digit_val c = of_char c - 48"

definition nat_of_digits :: "string \<Rightarrow> nat" where
  "nat_of_digits s = foldl (\<lambda>a c. 10 * a + digit_val c) 0 s"

section \<open>The node tree: class Element\<close>

text \<open>
  An \<open>Element\<close> object has the attributes \<open>data\<close>, \<open>index\<close>, \<open>parent\<close>, \<open>type\<close>,
  \<open>children\<close> and \<open>value\<close>. The attribute \<open>children\<close> is \<open>None\<close> or a \<open>List\<close> of
  Element objects. The attribute \<open>parent\<close> is a reference to another Element object: an
  object is identified by its address, the path of child positions that leads to it from the
  root (\<open>[]\<close> for the root), and a reference is such an address, read in the root with
  \<open>node_at\<close>.
\<close>

type_synonym addr = "nat list"

datatype element =
  Element (data: pyval) (index: pyval) (parent: "addr option") (etype: string)
          (children: "element list option") (evalue: pyval)

text \<open>\<open>lst or None\<close>: an empty \<open>List\<close> is falsy.\<close>

definition or_None :: "'a list \<Rightarrow> 'a list option" where
  "or_None lst = (if lst = [] then None else Some lst)"

text \<open>
  \<open>Element.__init__(data, index, parent)\<close> followed by \<open>_build(data)\<close>. The last argument
  is the address of the object under construction, which the children receive as
  \<open>parent=self\<close>. \<open>build_items\<close> is the loop over \<open>data.items()\<close>, \<open>build_enum\<close> the loop
  over \<open>enumerate(data)\<close>; their counter is the position of the next child.
\<close>

fun build :: "pyval \<Rightarrow> pyval \<Rightarrow> addr option \<Rightarrow> addr \<Rightarrow> element"
  and build_items :: "(pyval \<times> pyval) list \<Rightarrow> addr \<Rightarrow> nat \<Rightarrow> element list"
  and build_enum :: "pyval list \<Rightarrow> addr \<Rightarrow> nat \<Rightarrow> element list" where
  "build (PDict kvs) idx par self =
     Element (PDict kvs) idx par ''dict'' (or_None (build_items kvs self 0)) PNone"
| "build (PSeq k xs) idx par self =
     Element (PSeq k xs) idx par ''list'' (or_None (build_enum xs self 0)) PNone"
| "build PNone idx par self = Element PNone idx par ''NoneType'' None PNone"
| "build (PBool b) idx par self = Element (PBool b) idx par ''bool'' None (PBool b)"
| "build (PInt n) idx par self = Element (PInt n) idx par ''int'' None (PInt n)"
| "build (PFloat w) idx par self = Element (PFloat w) idx par ''float'' None (PFloat w)"
| "build (PStr s) idx par self = Element (PStr s) idx par ''str'' None (PStr s)"
| "build (PObj h) idx par self = Element (PObj h) idx par ''object'' None (PObj h)"
| "build_items [] self i = []"
| "build_items (kv # kvs) self i =
     build (snd kv) (fst kv) (Some self) (self @ [i]) # build_items kvs self (Suc i)"
| "build_enum [] self i = []"
| "build_enum (x # xs) self i =
     build x (PStr (''__index__'' @ str_nat i)) (Some self) (self @ [i])
       # build_enum xs self (Suc i)"

text \<open>\<open>Element(data)\<close>: the root, with index \<open>''\<close> and no parent.\<close>

definition Element_root :: "pyval \<Rightarrow> element" where
  "Element_root d = build d (PStr []) None []"

definition has_children :: "element \<Rightarrow> bool" where
  "has_children e = (case children e of None \<Rightarrow> False | Some cs \<Rightarrow> cs \<noteq> [])"

definition is_element :: "element \<Rightarrow> bool" where
  "is_element e = has_children e"

definition is_leaf :: "element \<Rightarrow> bool" where
  "is_leaf e = (\<not> has_children e)"

definition is_list :: "element \<Rightarrow> bool" where
  "is_list e = (etype e = ''list'')"

definition is_dict :: "element \<Rightarrow> bool" where
  "is_dict e = (etype e = ''dict'')"

text \<open>Reading a reference: the object at an address below a node.\<close>

fun node_at :: "element \<Rightarrow> addr \<Rightarrow> element option" where
  "node_at n [] = Some n"
| "node_at n (i # p) =
     (case children n of
        None \<Rightarrow> None
      | Some cs \<Rightarrow> if i < length cs then node_at (cs ! i) p else None)"


section \<open>The compiled lookup: class LookupCls\<close>

text \<open>
  The regular-expression library \<open>re\<close> of the Python distribution is a parameter of the
  model: \<open>re_compile p\<close> says whether \<open>re.compile(p)\<close> succeeds, and \<open>re_search p s\<close> is
  the truth value of \<open>re.search(p, s)\<close>, or \<open>None\<close> when the call raises \<open>re.error\<close>.
\<close>

record re_module =
  re_compile :: "string \<Rightarrow> bool"
  re_search :: "string \<Rightarrow> string \<Rightarrow> bool option"

text \<open>
  A side of a lookup compiles to a pattern string or to a callable, which is one of three
  \<open>functools.partial\<close> objects: \<open>partial(getattr(CustomValidation, name), valid=v,
  on_exception=False)\<close>, \<open>partial(OpValidation.compare_number, op=o, other=x,
  on_exception=False)\<close> and \<open>partial(OpValidation.compare, op=o, other=x,
  on_exception=False)\<close>. The module \<open>dlquery.validation\<close> that runs them is a parameter:
  a function from the callable and the value to the truth value of the result, or the
  exception raised.
\<close>

datatype callable =
    CustomValidation string bool
  | CompareNumber string string
  | Compare string string

datatype compiled = Pattern string | Callable callable

type_synonym validation = "callable \<Rightarrow> pyval \<Rightarrow> py_error + bool"

record lookup_cls =
  lookup :: string
  left :: compiled
  right :: "compiled option"

text \<open>\<open>bool(self.right)\<close>: \<open>None\<close> and the empty string are falsy.\<close>

definition is_right :: "lookup_cls \<Rightarrow> bool" where
  "is_right lk =
     (case right lk of
        None \<Rightarrow> False
      | Some (Pattern p) \<Rightarrow> p \<noteq> []
      | Some (Callable f) \<Rightarrow> True)"

text \<open>\<open>re.search(pattern, s)\<close> with a pattern that is a callable raises \<open>TypeError\<close>.\<close>

definition search :: "re_module \<Rightarrow> compiled \<Rightarrow> string \<Rightarrow> py_error + bool" where
  "search re c s =
     (case c of
        Callable f \<Rightarrow> Inl TypeError
      | Pattern p \<Rightarrow> (case re_search re p s of None \<Rightarrow> Inl ReError | Some b \<Rightarrow> Inr b))"

definition is_left_matched :: "re_module \<Rightarrow> lookup_cls \<Rightarrow> pyval \<Rightarrow> py_error + bool" where
  "is_left_matched re lk d =
     (case d of
        PStr s \<Rightarrow> search re (left lk) s
      | _ \<Rightarrow> Inr False)"

definition is_right_matched ::
  "re_module \<Rightarrow> validation \<Rightarrow> lookup_cls \<Rightarrow> pyval \<Rightarrow> py_error + bool" where
  "is_right_matched re V lk d =
     (if \<not> is_right lk then Inr True
      else
        (case right lk of
           None \<Rightarrow> Inr True
         | Some (Callable f) \<Rightarrow> V f d
         | Some (Pattern p) \<Rightarrow>
             (case d of
                PStr s \<Rightarrow> search re (Pattern p) s
              | _ \<Rightarrow> Inr False)))"

section \<open>The recursive finder: Element.find_\<close>

text \<open>
  The method \<open>find_\<close> (here \<open>find_rec\<close>: a name cannot end with an underscore) appends
  to the list \<open>result\<close> it is given and returns nothing. The model
  returns the list as it is when the call ends, with the exception that ended it, if one
  did. \<open>find_loop\<close> is the \<open>for child in node.children\<close> loop; its Boolean argument is
  \<open>node.is_list\<close>. Iterating over \<open>children\<close> when it is \<open>None\<close> raises \<open>TypeError\<close>.
\<close>

fun find_rec ::
    "re_module \<Rightarrow> validation \<Rightarrow> element \<Rightarrow> lookup_cls \<Rightarrow> element list
      \<Rightarrow> py_error option \<times> element list"
  and find_loop ::
    "re_module \<Rightarrow> validation \<Rightarrow> bool \<Rightarrow> element list \<Rightarrow> lookup_cls \<Rightarrow> element list
      \<Rightarrow> py_error option \<times> element list" where
  "find_rec re V (Element d i p t None v) lk result =
     (if t = ''dict'' \<or> t = ''list'' then (Some TypeError, result) else (None, result))"
| "find_rec re V (Element d i p t (Some cs) v) lk result =
     (if t = ''dict'' \<or> t = ''list'' then find_loop re V (t = ''list'') cs lk result
      else (None, result))"
| "find_loop re V node_is_list [] lk result = (None, result)"
| "find_loop re V node_is_list (child # rest) lk result =
     (if node_is_list then
        (if is_element child then
           (case find_rec re V child lk result of
              (Some e, r) \<Rightarrow> (Some e, r)
            | (None, r) \<Rightarrow> find_loop re V node_is_list rest lk r)
         else find_loop re V node_is_list rest lk result)
      else
        (case is_left_matched re lk (index child) of
           Inl e \<Rightarrow> (Some e, result)
         | Inr lm \<Rightarrow>
             (case (if lm then
                      (if is_right lk then
                         (case is_right_matched re V lk (data child) of
                            Inl e \<Rightarrow> Inl e
                          | Inr rm \<Rightarrow> Inr (if rm then result @ [child] else result))
                       else Inr (result @ [child]))
                    else Inr result) of
                Inl e \<Rightarrow> (Some e, result)
              | Inr r1 \<Rightarrow>
                  (if is_element child then
                     (case find_rec re V child lk r1 of
                        (Some e, r) \<Rightarrow> (Some e, r)
                      | (None, r) \<Rightarrow> find_loop re V node_is_list rest lk r)
                   else find_loop re V node_is_list rest lk r1))))"

text \<open>
  The test \<open>find_rec\<close> applies to a child of a dictionary node: the index against the left
  side, then, when there is a right side, the data against it.
\<close>

definition matched ::
  "re_module \<Rightarrow> validation \<Rightarrow> lookup_cls \<Rightarrow> element \<Rightarrow> py_error + bool" where
  "matched re V lk c =
     (case is_left_matched re lk (index c) of
        Inl e \<Rightarrow> Inl e
      | Inr lm \<Rightarrow>
          (if lm then (if is_right lk then is_right_matched re V lk (data c) else Inr True)
           else Inr False))"

text \<open>
  The proper descendants of a node, each with the node that holds it in its \<open>children\<close>,
  in pre-order: a child comes before everything below it, and all of that before its next
  sibling.
\<close>

fun descendants :: "element \<Rightarrow> (element \<times> element) list"
  and descendants_list :: "element \<Rightarrow> element list \<Rightarrow> (element \<times> element) list" where
  "descendants (Element d i p t None v) = []"
| "descendants (Element d i p t (Some cs) v) =
     descendants_list (Element d i p t (Some cs) v) cs"
| "descendants_list n [] = []"
| "descendants_list n (c # cs) = (n, c) # descendants c @ descendants_list n cs"

text \<open>
  The shape of a tree that \<open>build\<close> returns: a node with children has at least one, and
  is of type \<open>dict\<close> or \<open>list\<close>.
\<close>

fun wf_element :: "element \<Rightarrow> bool"
  and wf_elements :: "element list \<Rightarrow> bool" where
  "wf_element (Element d i p t None v) = True"
| "wf_element (Element d i p t (Some cs) v) =
     (cs \<noteq> [] \<and> (t = ''dict'' \<or> t = ''list'') \<and> wf_elements cs)"
| "wf_elements [] = True"
| "wf_elements (c # cs) = (wf_element c \<and> wf_elements cs)"

text \<open>The matches among a list of descendants: the children of dictionary nodes that pass.\<close>

definition select_matches :: "(element \<Rightarrow> bool) \<Rightarrow> (element \<times> element) list \<Rightarrow> element list" where
  "select_matches m l = map snd (filter (\<lambda>(p, c). is_dict p \<and> m c) l)"

text \<open>The same node under another index label.\<close>

definition relabel :: "(element \<Rightarrow> pyval) \<Rightarrow> element \<Rightarrow> element" where
  "relabel f c = Element (data c) (f c) (parent c) (etype c) (children c) (evalue c)"

section \<open>A regular-expression engine for a fragment of the syntax of \<open>re\<close>\<close>

text \<open>
  An instance of the parameter \<open>re_module\<close>, used wherever a pattern is run on a concrete
  string. It covers: an optional leading \<open>(?i)\<close>; literal characters; \<open>\\c\<close> for a
  character \<open>c\<close> that is not an ASCII letter or digit; \<open>.\<close> (any character but a newline);
  \<open>^\<close> (the start of the string) and \<open>$\<close> (the end of the string, or just before a
  newline that ends it); character sets \<open>[...]\<close> and \<open>[^...]\<close> with ranges; groups;
  \<open>|\<close>; and the quantifiers \<open>*\<close>, \<open>+\<close>, \<open>?\<close>, each optionally followed by the lazy
  mark \<open>?\<close>, which does not change whether a match exists. Every other pattern is not
  compiled by this instance: those that \<open>re\<close> rejects (an unterminated set, an unbalanced
  parenthesis, a quantifier with nothing to repeat, a pattern ending in a backslash), and
  those that use syntax outside the fragment (\<open>{m,n}\<close>, \<open>\\d\<close> and the other escapes of a
  letter or digit, \<open>(?...)\<close> extensions).
\<close>

definition is_alnum :: "char \<Rightarrow> bool" where
  "is_alnum c =
     (c \<in> set ''abcdefghijklmnopqrstuvwxyzABCDEFGHIJKLMNOPQRSTUVWXYZ0123456789'')"

definition is_upper :: "char \<Rightarrow> bool" where
  "is_upper c = (c \<in> set ''ABCDEFGHIJKLMNOPQRSTUVWXYZ'')"

text \<open>\<open>str.lower()\<close> on ASCII text.\<close>

definition lower_char :: "char \<Rightarrow> char" where
  "lower_char c = (if is_upper c then char_of (of_char c + (32 :: nat)) else c)"

definition lower :: "string \<Rightarrow> string" where
  "lower s = map lower_char s"

datatype regex =
    Lit char
  | Any
  | Class bool "(char \<times> char) list"
  | Bol
  | Eol
  | Eps
  | Seq regex regex
  | Alt regex regex
  | Star regex
  | Plus regex
  | Opt regex

datatype token =
    TChar char | TAny | TClass bool "(char \<times> char) list" | TBol | TEol
  | TOpen | TClose | TBar | TStar | TPlus | TQuest

datatype tmode =
    Normal
  | Escape
  | ClassOpen
  | ClassFirst bool
  | ClassBody bool "(char \<times> bool) list"
  | ClassEscape bool "(char \<times> bool) list"

text \<open>
  The members of a set, from its characters in order (each with whether it was escaped):
  \<open>a-b\<close> with an unescaped \<open>-\<close> between two members is a range, which must not be
  reversed.
\<close>

fun mk_ranges :: "(char \<times> bool) list \<Rightarrow> (char \<times> char) list option" where
  "mk_ranges ((a, ea) # (m, em) # (b, eb) # rest) =
     (if m = CHR ''-'' \<and> \<not> em then
        (if (of_char a :: nat) \<le> of_char b then map_option ((#) (a, b)) (mk_ranges rest)
         else None)
      else map_option ((#) (a, a)) (mk_ranges ((m, em) # (b, eb) # rest)))"
| "mk_ranges ((a, ea) # rest) = map_option ((#) (a, a)) (mk_ranges rest)"
| "mk_ranges [] = Some []"

fun tokens :: "tmode \<Rightarrow> string \<Rightarrow> token list option" where
  "tokens Normal [] = Some []"
| "tokens Normal (c # cs) =
     (if c = CHR 0x5C then tokens Escape cs
      else if c = CHR ''['' then tokens ClassOpen cs
      else if c = CHR ''{'' then None
      else map_option
        ((#) (if c = CHR ''.'' then TAny else if c = CHR ''^'' then TBol
              else if c = CHR ''$'' then TEol else if c = CHR ''('' then TOpen
              else if c = CHR '')'' then TClose else if c = CHR ''|'' then TBar
              else if c = CHR ''*'' then TStar else if c = CHR ''+'' then TPlus
              else if c = CHR ''?'' then TQuest else TChar c))
        (tokens Normal cs))"
| "tokens Escape [] = None"
| "tokens Escape (c # cs) =
     (if is_alnum c then None else map_option ((#) (TChar c)) (tokens Normal cs))"
| "tokens ClassOpen [] = None"
| "tokens ClassOpen (c # cs) =
     (if c = CHR ''^'' then tokens (ClassFirst True) cs
      else if c = CHR 0x5C then tokens (ClassEscape False []) cs
      else tokens (ClassBody False [(c, False)]) cs)"
| "tokens (ClassFirst neg) [] = None"
| "tokens (ClassFirst neg) (c # cs) =
     (if c = CHR 0x5C then tokens (ClassEscape neg []) cs
      else tokens (ClassBody neg [(c, False)]) cs)"
| "tokens (ClassBody neg items) [] = None"
| "tokens (ClassBody neg items) (c # cs) =
     (if c = CHR '']'' then
        (case mk_ranges (rev items) of
           None \<Rightarrow> None
         | Some rs \<Rightarrow> map_option ((#) (TClass neg rs)) (tokens Normal cs))
      else if c = CHR 0x5C then tokens (ClassEscape neg items) cs
      else tokens (ClassBody neg ((c, False) # items)) cs)"
| "tokens (ClassEscape neg items) [] = None"
| "tokens (ClassEscape neg items) (c # cs) =
     (if is_alnum c then None else tokens (ClassBody neg ((c, True) # items)) cs)"

text \<open>
  The parser keeps, for the group it is in, the alternatives that are complete and the
  items of the one it is reading (both latest first), and a stack of the same for the
  enclosing groups. An item remembers whether it carries a quantifier, and a lazy mark.
\<close>

datatype qstate = Plain | Quantified | Lazy

type_synonym frame = "regex list \<times> (regex \<times> qstate) list"

definition seq_of :: "(regex \<times> qstate) list \<Rightarrow> regex" where
  "seq_of items = foldl (\<lambda>acc it. Seq (fst it) acc) Eps items"

definition close_frame :: "frame \<Rightarrow> regex" where
  "close_frame f = foldl (\<lambda>acc a. Alt a acc) (seq_of (snd f)) (fst f)"

definition quantify :: "(regex \<Rightarrow> regex) \<Rightarrow> frame \<Rightarrow> frame option" where
  "quantify q f =
     (case snd f of
        [] \<Rightarrow> None
      | (a, st) # items \<Rightarrow>
          (if st \<noteq> Plain \<or> a = Bol \<or> a = Eol then None
           else Some (fst f, (q a, Quantified) # items)))"

definition quest :: "frame \<Rightarrow> frame option" where
  "quest f =
     (case snd f of
        [] \<Rightarrow> None
      | (a, st) # items \<Rightarrow>
          (if st = Lazy \<or> a = Bol \<or> a = Eol then None
           else if st = Quantified then Some (fst f, (a, Lazy) # items)
           else Some (fst f, (Opt a, Quantified) # items)))"

definition push_item :: "regex \<Rightarrow> frame \<Rightarrow> frame" where
  "push_item a f = (fst f, (a, Plain) # snd f)"

fun parse_tokens :: "token list \<Rightarrow> frame \<Rightarrow> frame list \<Rightarrow> regex option" where
  "parse_tokens [] cur st = (if st = [] then Some (close_frame cur) else None)"
| "parse_tokens (TOpen # ts) cur st = parse_tokens ts ([], []) (cur # st)"
| "parse_tokens (TClose # ts) cur st =
     (case st of
        [] \<Rightarrow> None
      | f # st' \<Rightarrow> parse_tokens ts (push_item (close_frame cur) f) st')"
| "parse_tokens (TBar # ts) cur st = parse_tokens ts (seq_of (snd cur) # fst cur, []) st"
| "parse_tokens (TStar # ts) cur st =
     (case quantify Star cur of None \<Rightarrow> None | Some f \<Rightarrow> parse_tokens ts f st)"
| "parse_tokens (TPlus # ts) cur st =
     (case quantify Plus cur of None \<Rightarrow> None | Some f \<Rightarrow> parse_tokens ts f st)"
| "parse_tokens (TQuest # ts) cur st =
     (case quest cur of None \<Rightarrow> None | Some f \<Rightarrow> parse_tokens ts f st)"
| "parse_tokens (TChar c # ts) cur st = parse_tokens ts (push_item (Lit c) cur) st"
| "parse_tokens (TAny # ts) cur st = parse_tokens ts (push_item Any cur) st"
| "parse_tokens (TClass neg rs # ts) cur st = parse_tokens ts (push_item (Class neg rs) cur) st"
| "parse_tokens (TBol # ts) cur st = parse_tokens ts (push_item Bol cur) st"
| "parse_tokens (TEol # ts) cur st = parse_tokens ts (push_item Eol cur) st"

text \<open>The compiled form: the \<open>IGNORECASE\<close> flag and the expression.\<close>

definition py_compile :: "string \<Rightarrow> (bool \<times> regex) option" where
  "py_compile p =
     (let ic = (take 4 p = ''(?i)''); body = (if ic then drop 4 p else p)
      in case tokens Normal body of
           None \<Rightarrow> None
         | Some ts \<Rightarrow> map_option (Pair ic) (parse_tokens ts ([], []) []))"

definition char_eq :: "bool \<Rightarrow> char \<Rightarrow> char \<Rightarrow> bool" where
  "char_eq ic a b = (if ic then lower_char a = lower_char b else a = b)"

definition in_range :: "char \<Rightarrow> char \<times> char \<Rightarrow> bool" where
  "in_range c r = ((of_char (fst r) :: nat) \<le> of_char c \<and> (of_char c :: nat) \<le> of_char (snd r))"

definition in_class :: "bool \<Rightarrow> (char \<times> char) list \<Rightarrow> char \<Rightarrow> bool" where
  "in_class ic rs c =
     (if ic then
        (\<exists>r \<in> set rs. in_range c r \<or> in_range (lower_char c) r
           \<or> (\<exists>u \<in> set ''ABCDEFGHIJKLMNOPQRSTUVWXYZ''. lower_char u = c \<and> in_range u r))
      else (\<exists>r \<in> set rs. in_range c r))"

text \<open>
  \<open>reach f n S\<close>: the positions reached from those of \<open>S\<close> by at most \<open>n\<close> rounds of
  \<open>f\<close>.
\<close>

fun reach :: "(nat \<Rightarrow> nat list) \<Rightarrow> nat \<Rightarrow> nat list \<Rightarrow> nat list" where
  "reach f 0 S = S"
| "reach f (Suc n) S = reach f n (remdups (S @ concat (map f S)))"

text \<open>
  \<open>ends ic r s i\<close>: the positions at which a match of \<open>r\<close> that starts at position \<open>i\<close>
  of \<open>s\<close> can end. A repetition needs at most \<open>length s\<close> rounds that consume a character.
\<close>

fun ends :: "bool \<Rightarrow> regex \<Rightarrow> string \<Rightarrow> nat \<Rightarrow> nat list" where
  "ends ic (Lit c) s i = (if i < length s \<and> char_eq ic (s ! i) c then [Suc i] else [])"
| "ends ic Any s i = (if i < length s \<and> s ! i \<noteq> CHR 0x0A then [Suc i] else [])"
| "ends ic (Class neg rs) s i =
     (if i < length s \<and> (in_class ic rs (s ! i) \<noteq> neg) then [Suc i] else [])"
| "ends ic Bol s i = (if i = 0 then [i] else [])"
| "ends ic Eol s i =
     (if i = length s \<or> (Suc i = length s \<and> s ! i = CHR 0x0A) then [i] else [])"
| "ends ic Eps s i = [i]"
| "ends ic (Seq a b) s i = concat (map (ends ic b s) (ends ic a s i))"
| "ends ic (Alt a b) s i = ends ic a s i @ ends ic b s i"
| "ends ic (Opt a) s i = ends ic a s i @ [i]"
| "ends ic (Star a) s i = reach (\<lambda>j. ends ic a s j) (length s) [i]"
| "ends ic (Plus a) s i =
     concat (map (\<lambda>j. reach (\<lambda>k. ends ic a s k) (length s) [j]) (ends ic a s i))"

text \<open>\<open>re.search\<close>: a match may start at any position, the end of the string included.\<close>

definition search_compiled :: "bool \<times> regex \<Rightarrow> string \<Rightarrow> bool" where
  "search_compiled cr s = (\<exists>i \<in> set [0 ..< Suc (length s)]. ends (fst cr) (snd cr) s i \<noteq> [])"

definition py_re :: re_module where
  "py_re = \<lparr> re_compile = (\<lambda>p. py_compile p \<noteq> None),
             re_search = (\<lambda>p s. map_option (\<lambda>cr. search_compiled cr s) (py_compile p)) \<rparr>"

section \<open>The result projector: Element.filter_result\<close>

text \<open>
  The class \<open>SelectParser\<close> of the module \<open>dlquery.parser\<close> is a parameter: a function
  from the select statement to the object that \<open>parse_statement\<close> leaves, of which
  \<open>filter_result\<close> reads \<open>predicate\<close> (a callable or not), \<open>is_zero_select\<close>,
  \<open>is_all_select\<close> and \<open>columns\<close>; or to the exception raised.
\<close>

record select_obj =
  predicate :: "(pyval \<Rightarrow> py_error + bool) option"
  is_zero_select :: bool
  is_all_select :: bool
  columns :: "pyval list"

type_synonym select_parser = "string \<Rightarrow> py_error + select_obj"

text \<open>
  \<open>item.parent.data\<close>, read in the tree with the given root: on \<open>None\<close> the attribute
  access raises.
\<close>

definition parent_data :: "element \<Rightarrow> element \<Rightarrow> py_error + pyval" where
  "parent_data root item =
     (case parent item of
        None \<Rightarrow> Inl AttributeError
      | Some a \<Rightarrow>
          (case node_at root a of
             None \<Rightarrow> Inl AttributeError
           | Some p \<Rightarrow> Inr (data p)))"

text \<open>The loop that keeps the records whose parent's data satisfies the predicate.\<close>

fun filter_predicate ::
  "(pyval \<Rightarrow> py_error + bool) \<Rightarrow> element \<Rightarrow> element list \<Rightarrow> py_error + element list" where
  "filter_predicate f root [] = Inr []"
| "filter_predicate f root (record # records) =
     (case parent_data root record of
        Inl e \<Rightarrow> Inl e
      | Inr d \<Rightarrow>
          (case f d of
             Inl e \<Rightarrow> Inl e
           | Inr is_found \<Rightarrow>
               (case filter_predicate f root records of
                  Inl e \<Rightarrow> Inl e
                | Inr lst \<Rightarrow> Inr (if is_found then record # lst else lst))))"

text \<open>
  \<open>dict.fromkeys(columns)\<close> has each column once, at its first place; \<open>d.get(key, None)\<close>
  and \<open>key in d\<close> read the dictionary. Only a dictionary has \<open>fromkeys\<close>.
\<close>

definition fromkeys :: "pyval list \<Rightarrow> pyval list" where
  "fromkeys cols = rev (remdups (rev cols))"

definition dict_get :: "(pyval \<times> pyval) list \<Rightarrow> pyval \<Rightarrow> pyval \<Rightarrow> pyval" where
  "dict_get kvs k dflt = (case map_of kvs k of None \<Rightarrow> dflt | Some v \<Rightarrow> v)"

definition dict_has :: "(pyval \<times> pyval) list \<Rightarrow> pyval \<Rightarrow> bool" where
  "dict_has kvs k = (k \<in> set (map fst kvs))"

fun select_all :: "element \<Rightarrow> element list \<Rightarrow> py_error + pyval list" where
  "select_all root [] = Inr []"
| "select_all root (item # lst) =
     (case parent_data root item of
        Inl e \<Rightarrow> Inl e
      | Inr d \<Rightarrow>
          (case select_all root lst of
             Inl e \<Rightarrow> Inl e
           | Inr result \<Rightarrow> Inr (d # result)))"

fun select_columns :: "pyval list \<Rightarrow> element \<Rightarrow> element list \<Rightarrow> py_error + pyval list" where
  "select_columns cols root [] = Inr []"
| "select_columns cols root (item # lst) =
     (case parent_data root item of
        Inl e \<Rightarrow> Inl e
      | Inr (PDict kvs) \<Rightarrow>
          (let new_data = PDict (map (\<lambda>key. (key, dict_get kvs key PNone)) (fromkeys cols));
               is_added = list_all (dict_has kvs) (fromkeys cols)
           in case select_columns cols root lst of
                Inl e \<Rightarrow> Inl e
              | Inr result \<Rightarrow> Inr (if is_added then new_data # result else result))
      | Inr _ \<Rightarrow> Inl AttributeError)"

definition filter_result ::
  "select_parser \<Rightarrow> element \<Rightarrow> element list \<Rightarrow> string \<Rightarrow> py_error + pyval list" where
  "filter_result SelectParser root records select_statement =
     (case SelectParser select_statement of
        Inl e \<Rightarrow> Inl e
      | Inr select_obj \<Rightarrow>
          (case (case predicate select_obj of
                   Some f \<Rightarrow> filter_predicate f root records
                 | None \<Rightarrow> Inr records) of
             Inl e \<Rightarrow> Inl e
           | Inr lst \<Rightarrow>
               (if is_zero_select select_obj then Inr (map data lst)
                else if is_all_select select_obj then select_all root lst
                else select_columns (columns select_obj) root lst)))"

section \<open>The indexed accessor: DLQuery.get\<close>

text \<open>\<open>re.match\<close> in the engine above: a match that starts at position 0.\<close>

definition py_match :: "string \<Rightarrow> string \<Rightarrow> bool option" where
  "py_match p s = map_option (\<lambda>cr. ends (fst cr) (snd cr) s 0 \<noteq> []) (py_compile p)"

text \<open>\<open>str.strip()\<close>, \<open>str.count\<close> and \<open>str.split\<close> for a separator of one character.\<close>

definition is_space :: "char \<Rightarrow> bool" where
  "is_space c = (c \<in> set [CHR '' '', CHR 0x09, CHR 0x0A, CHR 0x0B, CHR 0x0C, CHR 0x0D,
                            CHR 0x1C, CHR 0x1D, CHR 0x1E, CHR 0x1F])"

definition strip :: "string \<Rightarrow> string" where
  "strip s = rev (dropWhile is_space (rev (dropWhile is_space s)))"

definition count_char :: "char \<Rightarrow> string \<Rightarrow> nat" where
  "count_char c s = length (filter (\<lambda>x. x = c) s)"

fun split_char :: "char \<Rightarrow> string \<Rightarrow> string list" where
  "split_char c [] = [[]]"
| "split_char c (x # xs) =
     (if x = c then [] # split_char c xs
      else (case split_char c xs of [] \<Rightarrow> [[x]] | h # t \<Rightarrow> (x # h) # t))"

text \<open>
  \<open>int(s)\<close> for a string: white space around, an optional sign, then decimal digits, where
  single underscores may stand between digits; anything else raises \<open>ValueError\<close>.
\<close>

fun int_body :: "bool \<Rightarrow> string \<Rightarrow> bool" where
  "int_body after_digit [] = after_digit"
| "int_body after_digit (c # cs) =
     (if is_digit c then int_body True cs
      else if c = CHR ''_'' \<and> after_digit then (cs \<noteq> [] \<and> is_digit (hd cs) \<and> int_body False cs)
      else False)"

definition py_int :: "string \<Rightarrow> py_error + int" where
  "py_int s =
     (let t = strip s;
          neg = (t \<noteq> [] \<and> hd t = CHR ''-'');
          body = (if t \<noteq> [] \<and> (hd t = CHR ''-'' \<or> hd t = CHR ''+'') then tl t else t)
      in if int_body False body
         then Inr ((if neg then - 1 else 1) * int (nat_of_digits (filter is_digit body)))
         else Inl ValueError)"

text \<open>\<open>xs[i]\<close> for an integer and \<open>xs[slice(start, stop, step)]\<close> on a list or tuple.\<close>

definition py_index :: "'a list \<Rightarrow> int \<Rightarrow> py_error + 'a" where
  "py_index xs i =
     (let n = int (length xs); j = (if i < 0 then i + n else i)
      in if 0 \<le> j \<and> j < n then Inr (xs ! nat j) else Inl IndexError)"

definition py_slice :: "'a list \<Rightarrow> int option \<Rightarrow> int option \<Rightarrow> int option \<Rightarrow> py_error + 'a list" where
  "py_slice xs start stop step =
     (let n = int (length xs);
          st = (case step of None \<Rightarrow> 1 | Some k \<Rightarrow> k)
      in if st = 0 then Inl ValueError
         else
           (let lower = (if st < 0 then - 1 else 0);
                upper = (if st < 0 then n - 1 else n);
                clamp = (\<lambda>v. if v < 0 then max (v + n) lower else min v upper);
                a = (case start of None \<Rightarrow> (if st < 0 then upper else lower) | Some v \<Rightarrow> clamp v);
                b = (case stop of None \<Rightarrow> (if st < 0 then lower else upper) | Some v \<Rightarrow> clamp v);
                cnt = (if st > 0 then (if a < b then (b - a - 1) div st + 1 else 0)
                       else (if b < a then (a - b - 1) div (- st) + 1 else 0))
            in Inr (map (\<lambda>k. xs ! nat (a + int k * st)) [0 ..< nat cnt])))"

text \<open>\<open>int(x) if x else None\<close> for a component of a slice expression.\<close>

definition slice_part :: "string \<Rightarrow> py_error + int option" where
  "slice_part x = (if x \<noteq> [] then map_sum id Some (py_int x) else Inr None)"

definition slice_check :: "string \<Rightarrow> bool" where
  "slice_check x = (py_match ''-?[0-9]+$'' (strip x) = Some True \<or> x = [])"

text \<open>
  The body of the \<open>try\<close> block of \<open>get\<close>. \<open>self.is_list\<close> holds for a list or a tuple;
  a Boolean index is an \<open>int\<close>; \<open>self.data[index]\<close> with a string index raises
  \<open>TypeError\<close>; only a dictionary has the method \<open>get\<close>.
\<close>

definition get_try :: "pyval \<Rightarrow> pyval \<Rightarrow> pyval \<Rightarrow> bool \<Rightarrow> py_error + pyval" where
  "get_try container idx dflt on_exception =
     (case container of
        PSeq k xs \<Rightarrow>
          (if k = SetK then Inl AttributeError
           else
             (case idx of
                PInt i \<Rightarrow> py_index xs i
              | PBool b \<Rightarrow> py_index xs (if b then 1 else 0)
              | PStr s \<Rightarrow>
                  (if py_match ''-?[0-9]+$'' (strip s) = Some True then
                     (case py_int s of Inl e \<Rightarrow> Inl e | Inr i \<Rightarrow> py_index xs i)
                   else
                     (let count = count_char CHR '':'' s in
                      if count = 1 then
                        (case map strip (split_char CHR '':'' s) of
                           [i, j] \<Rightarrow>
                             (if slice_check i \<or> slice_check j then
                                (case slice_part i of
                                   Inl e \<Rightarrow> Inl e
                                 | Inr i' \<Rightarrow>
                                     (case slice_part j of
                                        Inl e \<Rightarrow> Inl e
                                      | Inr j' \<Rightarrow> map_sum id (PSeq k) (py_slice xs i' j' None)))
                              else if on_exception then Inl TypeError else Inr dflt)
                         | _ \<Rightarrow> Inl ValueError)
                      else if count = 2 then
                        (case map strip (split_char CHR '':'' s) of
                           [i, j, k'] \<Rightarrow>
                             (if slice_check i \<or> slice_check j \<or> slice_check k' then
                                (case slice_part i of
                                   Inl e \<Rightarrow> Inl e
                                 | Inr i' \<Rightarrow>
                                     (case slice_part j of
                                        Inl e \<Rightarrow> Inl e
                                      | Inr j' \<Rightarrow>
                                          (case slice_part k' of
                                             Inl e \<Rightarrow> Inl e
                                           | Inr k'' \<Rightarrow>
                                               map_sum id (PSeq k) (py_slice xs i' j' k''))))
                              else if on_exception then Inl TypeError else Inr dflt)
                         | _ \<Rightarrow> Inl ValueError)
                      else if on_exception then Inl TypeError else Inr dflt))
              | _ \<Rightarrow> Inr dflt))
      | PDict kvs \<Rightarrow>
          (case idx of
             PDict _ \<Rightarrow> Inl TypeError
           | PSeq ListK _ \<Rightarrow> Inl TypeError
           | PSeq SetK _ \<Rightarrow> Inl TypeError
           | _ \<Rightarrow> Inr (dict_get kvs idx dflt))
      | _ \<Rightarrow> Inl AttributeError)"

text \<open>\<open>get\<close>: an exception of the body is raised again under \<open>on_exception\<close>, and becomes
  the default otherwise.\<close>

definition get :: "pyval \<Rightarrow> pyval \<Rightarrow> pyval \<Rightarrow> bool \<Rightarrow> py_error + pyval" where
  "get container idx dflt on_exception =
     (case get_try container idx dflt on_exception of
        Inl ex \<Rightarrow> (if on_exception then Inl ex else Inr dflt)
      | Inr v \<Rightarrow> Inr v)"

section \<open>Strings: \<open>str.replace\<close> and \<open>re.escape\<close>\<close>

text \<open>
  \<open>s.replace(old, new)\<close>: the occurrences of \<open>old\<close> are found from the left and do not
  overlap. For an empty \<open>old\<close>, \<open>new\<close> is put before every character and at the end.
\<close>

function replace :: "string \<Rightarrow> string \<Rightarrow> string \<Rightarrow> string" where
  "replace old new s =
     (if old = [] then new @ concat (map (\<lambda>c. c # new) s)
      else if s = [] then []
      else if take (length old) s = old then new @ replace old new (drop (length old) s)
      else hd s # replace old new (tl s))"
  by pat_completeness auto
termination
  by (relation "measure (\<lambda>(old, new, s). length s)") auto

declare replace.simps [simp del]

text \<open>
  \<open>re.escape\<close> (Python 3.7 and later): a backslash before each of the characters
  \<open>()[]{}?*+-|^$\\.&~#\<close>, the space, and the control characters tab, newline, carriage
  return, vertical tab and form feed.
\<close>

definition special_chars :: "char list" where
  "special_chars = ''()[]{}?*+-|^$.&~# '' @ [CHR 0x5C, CHR 0x09, CHR 0x0A, CHR 0x0D, CHR 0x0B, CHR 0x0C]"

definition escape :: "string \<Rightarrow> string" where
  "escape s = concat (map (\<lambda>c. if c \<in> set special_chars then [CHR 0x5C, c] else [c]) s)"

section \<open>The wildcard-to-regex converter: utils.convert_wildcard_to_regex\<close>

text \<open>
  The string that the chain of \<open>replace\<close> calls produces, with \<open>^\<close> and \<open>$\<close> around it
  when \<open>closed\<close> is set.
\<close>

definition wildcard_regex :: "string \<Rightarrow> bool \<Rightarrow> string" where
  "wildcard_regex pattern closed =
     (let regex_pattern = replace ''.'' [CHR 0x5C, CHR ''.''] pattern;
          regex_pattern = replace ''+'' [CHR 0x5C, CHR ''+''] regex_pattern;
          regex_pattern = replace ''?'' ''_replacetodot_'' regex_pattern;
          regex_pattern = replace ''*'' ''_replacetodotasterisk_'' regex_pattern;
          regex_pattern = replace ''_replacetodot_'' ''.'' regex_pattern;
          regex_pattern = replace ''_replacetodotasterisk_'' ''.*'' regex_pattern;
          regex_pattern = replace ''[!'' ''[^'' regex_pattern
      in if closed then ''^'' @ regex_pattern @ ''$'' else regex_pattern)"

text \<open>
  \<open>convert_wildcard_to_regex(pattern, closed)\<close>: the string is returned when
  \<open>re.compile\<close> accepts it, and \<open>RegexConversionError\<close> is raised when it does not.
\<close>

definition convert_wildcard_to_regex :: "re_module \<Rightarrow> string \<Rightarrow> bool \<Rightarrow> py_error + string" where
  "convert_wildcard_to_regex re pattern closed =
     (let regex_pattern = wildcard_regex pattern closed
      in if re_compile re regex_pattern then Inr regex_pattern
         else Inl RegexConversionError)"

text \<open>
  The translation as the wildcard syntax describes it, character by character: \<open>?\<close> is
  \<open>.\<close>, \<open>*\<close> is \<open>.*\<close>, \<open>[!\<close> is \<open>[^\<close>, \<open>.\<close> and \<open>+\<close> get a backslash, every other
  character stands for itself.
\<close>

fun wildcard_spec :: "string \<Rightarrow> string" where
  "wildcard_spec [] = []"
| "wildcard_spec (c # cs) =
     (if c = CHR ''['' \<and> cs \<noteq> [] \<and> hd cs = CHR ''!'' then ''[^'' @ wildcard_spec (tl cs)
      else if c = CHR ''?'' then ''.'' @ wildcard_spec cs
      else if c = CHR ''*'' then ''.*'' @ wildcard_spec cs
      else if c = CHR ''.'' then [CHR 0x5C, CHR ''.''] @ wildcard_spec cs
      else if c = CHR ''+'' then [CHR 0x5C, CHR ''+''] @ wildcard_spec cs
      else c # wildcard_spec cs)"

text \<open>
  What one character of the wildcard has become after the first four \<open>replace\<close> calls,
  after the fifth, and after the sixth.
\<close>

definition wc_marked :: "char \<Rightarrow> string" where
  "wc_marked c =
     (if c = CHR ''.'' then [CHR 0x5C, CHR ''.'']
      else if c = CHR ''+'' then [CHR 0x5C, CHR ''+'']
      else if c = CHR ''?'' then ''_replacetodot_''
      else if c = CHR ''*'' then ''_replacetodotasterisk_''
      else [c])"

definition wc_dot :: "char \<Rightarrow> string" where
  "wc_dot c =
     (if c = CHR ''.'' then [CHR 0x5C, CHR ''.'']
      else if c = CHR ''+'' then [CHR 0x5C, CHR ''+'']
      else if c = CHR ''?'' then ''.''
      else if c = CHR ''*'' then ''_replacetodotasterisk_''
      else [c])"

definition wc_char :: "char \<Rightarrow> string" where
  "wc_char c =
     (if c = CHR ''.'' then [CHR 0x5C, CHR ''.'']
      else if c = CHR ''+'' then [CHR 0x5C, CHR ''+'']
      else if c = CHR ''?'' then ''.''
      else if c = CHR ''*'' then ''.*''
      else [c])"

section \<open>Sample inputs\<close>

text \<open>
  The document \<open>{"a": {"a": 1, "c": []}, "b": [{"a": 2}, "x"]}\<close>, the lookup object of the
  lookup \<open>a\<close>, and a validation module whose callables all return \<open>False\<close>.
\<close>

definition sample_data :: pyval where
  "sample_data =
     PDict [(PStr ''a'', PDict [(PStr ''a'', PInt 1), (PStr ''c'', PSeq ListK [])]),
            (PStr ''b'', PSeq ListK [PDict [(PStr ''a'', PInt 2)], PStr ''x''])]"

definition sample_lookup :: lookup_cls where
  "sample_lookup = \<lparr> lookup = ''a'', left = Pattern ''^a$'', right = None \<rparr>"

definition sample_validation :: validation where
  "sample_validation f v = Inr False"

text \<open>
  A select parser that returns, for every statement, a column-select of the columns \<open>a\<close>
  and \<open>c\<close> whose predicate holds for the dictionaries with a key \<open>a\<close>; and the key-value
  pairs of the dictionary that is a record's parent's data.
\<close>

definition sample_select :: select_parser where
  "sample_select stmt =
     Inr \<lparr> predicate = Some (\<lambda>d. Inr (case d of PDict kvs \<Rightarrow> dict_has kvs (PStr ''a'') | _ \<Rightarrow> False)),
           is_zero_select = False, is_all_select = False,
           columns = [PStr ''a'', PStr ''c''] \<rparr>"

definition parent_items :: "element \<Rightarrow> element \<Rightarrow> (pyval \<times> pyval) list" where
  "parent_items root r = (case parent_data root r of Inr (PDict kvs) \<Rightarrow> kvs | _ \<Rightarrow> [])"

text \<open>The list \<open>["a", "b", "c", "d"]\<close>.\<close>

definition sample_list :: pyval where
  "sample_list = PSeq ListK [PStr ''a'', PStr ''b'', PStr ''c'', PStr ''d'']"

section \<open>The finder on a well-shaped tree\<close>


lemma descendants_leaf: "\<not> is_element c \<Longrightarrow> wf_element c \<Longrightarrow> descendants c = []"
  by (cases c; cases "children c") (auto simp: is_element_def has_children_def)

lemma is_element_children: "is_element c \<Longrightarrow> children c \<noteq> None"
  by (auto simp: is_element_def has_children_def split: option.splits)

lemma select_matches_simps [simp]:
  "select_matches m [] = []"
  "select_matches m (l1 @ l2) = select_matches m l1 @ select_matches m l2"
  "select_matches m ((p, c) # l) = (if is_dict p \<and> m c then [c] else []) @ select_matches m l"
  by (simp_all add: select_matches_def)

lemma matched_Inr_cases:
  "matched re V lk c = Inr b \<Longrightarrow>
   (\<exists>lm. is_left_matched re lk (index c) = Inr lm \<and>
      (if lm then (if is_right lk then is_right_matched re V lk (data c) = Inr b else b) else \<not> b))"
  by (auto simp: matched_def split: sum.splits if_splits)

lemma find_rec_wf:
  "wf_element n \<Longrightarrow>
   (\<forall>(p, c) \<in> set (descendants n). is_dict p \<longrightarrow> matched re V lk c = Inr (m c)) \<Longrightarrow>
   find_rec re V n lk acc =
     (if (is_dict n \<or> is_list n) \<and> children n = None then Some TypeError else None,
      acc @ select_matches m (descendants n))"
  and find_loop_wf:
  "wf_elements cs \<Longrightarrow> is_dict n = (\<not> nl) \<Longrightarrow>
   (\<forall>(p, c) \<in> set (descendants_list n cs). is_dict p \<longrightarrow> matched re V lk c = Inr (m c)) \<Longrightarrow>
   find_loop re V nl cs lk acc = (None, acc @ select_matches m (descendants_list n cs))"
proof (induction re V n lk acc and re V nl cs lk acc arbitrary: and n rule: find_rec_find_loop.induct)
  case (1 re V d i p t v lk result)
  then show ?case by (simp add: is_dict_def is_list_def)
next
  case (2 re V d i p t cs v lk result)
  let ?n = "Element d i p t (Some cs) v"
  from "2.prems" have t: "t = ''dict'' \<or> t = ''list''" and wf: "wf_elements cs" by simp_all
  from t have nd: "is_dict ?n = (\<not> (t = ''list''))" by (auto simp: is_dict_def)
  from "2.prems"(2) have h: "\<forall>(p, c) \<in> set (descendants_list ?n cs). is_dict p \<longrightarrow> matched re V lk c = Inr (m c)"
    by simp
  from "2.IH"[OF t wf nd h] t show ?case by simp
next
  case (3 re V node_is_list lk result)
  then show ?case by simp
next
  case (4 re V nl child rest lk result)
  from "4.prems" have wfc: "wf_element child" and wfr: "wf_elements rest" by simp_all
  from "4.prems"(3) have hc: "\<forall>(p, c) \<in> set (descendants child). is_dict p \<longrightarrow> matched re V lk c = Inr (m c)"
    and hr: "\<forall>(p, c) \<in> set (descendants_list n rest). is_dict p \<longrightarrow> matched re V lk c = Inr (m c)"
    by auto
  note nd = "4.prems"(2)
  show ?case
  proof (cases nl)
    case True
    then have ndict: "\<not> is_dict n" using nd by simp
    show ?thesis
    proof (cases "is_element child")
      case ie: True
      have fc: "find_rec re V child lk result = (None, result @ select_matches m (descendants child))"
        using "4.IH"(1)[OF True ie wfc hc] is_element_children[OF ie] by simp
      have "find_loop re V nl rest lk (result @ select_matches m (descendants child)) =
            (None, (result @ select_matches m (descendants child)) @ select_matches m (descendants_list n rest))"
        using "4.IH"(2)[OF True ie fc[symmetric] _ wfr nd hr] by simp
      then show ?thesis using True ie fc ndict by simp
    next
      case ie: False
      have "find_loop re V nl rest lk result = (None, result @ select_matches m (descendants_list n rest))"
        using "4.IH"(3)[OF True ie wfr nd hr] .
      then show ?thesis using True ie ndict descendants_leaf[OF ie wfc] by simp
    qed
  next
    case False
    then have isd: "is_dict n" using nd by simp
    have mc: "matched re V lk child = Inr (m child)" using "4.prems"(3) isd by simp
    from matched_Inr_cases[OF mc] obtain lm where
      lm: "is_left_matched re lk (index child) = Inr lm" and
      rest: "if lm then (if is_right lk then is_right_matched re V lk (data child) = Inr (m child) else m child) else \<not> m child"
      by blast
    define r1 where "r1 = result @ (if m child then [child] else [])"
    have step: "(if lm then
                      (if is_right lk then
                         (case is_right_matched re V lk (data child) of
                            Inl e \<Rightarrow> Inl e
                          | Inr rm \<Rightarrow> Inr (if rm then result @ [child] else result))
                       else Inr (result @ [child]))
                    else Inr result) = (Inr r1 :: py_error + element list)"
      using rest by (auto simp: r1_def split: if_splits)
    show ?thesis
    proof (cases "is_element child")
      case ie: True
      have fc: "find_rec re V child lk r1 = (None, r1 @ select_matches m (descendants child))"
        using "4.IH"(4)[OF False lm step ie wfc hc] is_element_children[OF ie] by simp
      have "find_loop re V nl rest lk (r1 @ select_matches m (descendants child)) =
            (None, (r1 @ select_matches m (descendants child)) @ select_matches m (descendants_list n rest))"
        using "4.IH"(5)[OF False lm step ie fc[symmetric] _ wfr nd hr] by simp
      then show ?thesis using False ie fc isd lm step by (simp add: r1_def)
    next
      case ie: False
      have "find_loop re V nl rest lk r1 = (None, r1 @ select_matches m (descendants_list n rest))"
        using "4.IH"(6)[OF False lm step ie wfr nd hr] .
      then show ?thesis using False ie isd lm step descendants_leaf[OF ie wfc] by (simp add: r1_def)
    qed
  qed
qed


section \<open>The tree that the constructor builds\<close>


lemma or_None_simps [simp]:
  "or_None [] = None" "or_None (x # xs) = Some (x # xs)"
  "or_None l \<noteq> Some []" "(or_None l = None) = (l = [])" "(or_None l = Some cs) = (l = cs \<and> cs \<noteq> [])"
  by (auto simp: or_None_def)

lemma build_fields [simp]:
  "data (build d idx par self) = d"
  "index (build d idx par self) = idx"
  "parent (build d idx par self) = par"
  by (cases d; simp)+

lemma length_build_items [simp]: "length (build_items kvs self i) = length kvs"
  by (induction kvs arbitrary: i) auto

lemma length_build_enum [simp]: "length (build_enum xs self i) = length xs"
  by (induction xs arbitrary: i) auto

lemma nth_build_items:
  "j < length kvs \<Longrightarrow>
   build_items kvs self i ! j = build (snd (kvs ! j)) (fst (kvs ! j)) (Some self) (self @ [i + j])"
  by (induction kvs arbitrary: i j) (auto simp: nth_Cons split: nat.splits)

lemma nth_build_enum:
  "j < length xs \<Longrightarrow>
   build_enum xs self i ! j =
     build (xs ! j) (PStr (''__index__'' @ str_nat (i + j))) (Some self) (self @ [i + j])"
  by (induction xs arbitrary: i j) (auto simp: nth_Cons split: nat.splits)

lemma build_items_Nil [simp]: "(build_items kvs self i = []) = (kvs = [])"
  by (cases kvs) auto

lemma build_enum_Nil [simp]: "(build_enum xs self i = []) = (xs = [])"
  by (cases xs) auto

lemma children_build:
  "children (build d idx par self) =
     (case d of PDict kvs \<Rightarrow> or_None (build_items kvs self 0)
              | PSeq k xs \<Rightarrow> or_None (build_enum xs self 0)
              | _ \<Rightarrow> None)"
  by (cases d) auto

lemma etype_build:
  "etype (build d idx par self) =
     (case d of PDict kvs \<Rightarrow> ''dict'' | PSeq k xs \<Rightarrow> ''list'' | PNone \<Rightarrow> ''NoneType''
        | PBool b \<Rightarrow> ''bool'' | PInt n \<Rightarrow> ''int'' | PFloat w \<Rightarrow> ''float'' | PStr s \<Rightarrow> ''str''
        | PObj h \<Rightarrow> ''object'')"
  by (cases d) auto

lemma wf_build:
  "wf_element (build d idx par self)"
  "wf_elements (build_items kvs self i)"
  "wf_elements (build_enum xs self i)"
  by (induction d idx par self and kvs self i and xs self i rule: build_build_items_build_enum.induct)
     (auto simp: or_None_def)

lemma child_of_build:
  assumes "children (build d idx par self) = Some cs" "i < length cs"
  shows "\<exists>d' idx'. cs ! i = build d' idx' (Some self) (self @ [i]) \<and>
           (wf_data d \<longrightarrow> wf_data d')"
proof (cases d)
  case (PDict kvs)
  with assms have cs: "cs = build_items kvs self 0" and i: "i < length kvs"
    by (auto simp: children_build)
  have "wf_items kvs \<Longrightarrow> wf_data (snd (kvs ! i))" using i
    by (induction kvs arbitrary: i) (auto simp: nth_Cons split: nat.splits)
  then show ?thesis using cs i PDict by (auto simp: nth_build_items)
next
  case (PSeq k xs)
  with assms have cs: "cs = build_enum xs self 0" and i: "i < length xs"
    by (auto simp: children_build)
  have "wf_seq xs \<Longrightarrow> wf_data (xs ! i)" using i
    by (induction xs arbitrary: i) (auto simp: nth_Cons split: nat.splits)
  then show ?thesis using cs i PSeq by (auto simp: nth_build_enum)
qed (use assms in \<open>auto simp: children_build\<close>)

lemma node_at_build:
  "node_at (build d idx par self) q = Some n \<Longrightarrow>
   \<exists>d' idx' par'. n = build d' idx' par' (self @ q) \<and>
      (wf_data d \<longrightarrow> wf_data d') \<and>
      par' = (if q = [] then par else Some (self @ butlast q))"
proof (induction q arbitrary: d idx par self)
  case Nil
  then show ?case by auto
next
  case (Cons i q)
  from Cons.prems obtain cs where cs: "children (build d idx par self) = Some cs"
    and i: "i < length cs" and n: "node_at (cs ! i) q = Some n"
    by (auto split: option.splits if_splits)
  from child_of_build[OF cs i] obtain d1 idx1 where
    c: "cs ! i = build d1 idx1 (Some self) (self @ [i])" and w: "wf_data d \<longrightarrow> wf_data d1"
    by blast
  from Cons.IH[OF n[unfolded c]] obtain d' idx' par' where
    n': "n = build d' idx' par' ((self @ [i]) @ q)" and w': "wf_data d1 \<longrightarrow> wf_data d'"
    and p': "par' = (if q = [] then Some self else Some ((self @ [i]) @ butlast q))"
    by blast
  have "par' = Some (self @ butlast (i # q))" using p' by simp
  with n' w w' show ?case by (intro exI[of _ d'] exI[of _ idx'] exI[of _ par']) simp
qed

lemma node_at_append:
  "node_at n (a @ b) = (case node_at n a of None \<Rightarrow> None | Some m \<Rightarrow> node_at m b)"
  by (induction a arbitrary: n) (auto split: option.splits)



lemma digit_val_digit_char: "d < 10 \<Longrightarrow> digit_val (digit_char d) = d"
  by (simp add: digit_val_def digit_char_def)

lemma nat_of_digits_snoc: "nat_of_digits (s @ [c]) = 10 * nat_of_digits s + digit_val c"
  by (simp add: nat_of_digits_def)

lemma nat_of_digits_str_nat: "nat_of_digits (str_nat n) = n"
proof (induction n rule: str_nat.induct)
  case (1 n)
  show ?case
  proof (cases "n < 10")
    case True
    then show ?thesis
      by (subst str_nat.simps) (simp add: nat_of_digits_def digit_val_digit_char)
  next
    case False
    then show ?thesis using 1
      by (subst str_nat.simps) (simp add: nat_of_digits_snoc digit_val_digit_char)
  qed
qed

lemma str_nat_inj: "str_nat i = str_nat j \<Longrightarrow> i = j"
  by (metis nat_of_digits_str_nat)

lemma index_build_items: "map index (build_items kvs self i) = map fst kvs"
  by (induction kvs arbitrary: i) auto

lemma index_build_enum:
  "map index (build_enum xs self i) =
     map (\<lambda>j. PStr (''__index__'' @ str_nat j)) [i ..< i + length xs]"
proof (induction xs arbitrary: i)
  case Nil
  then show ?case by simp
next
  case (Cons x xs)
  have "[i ..< i + length (x # xs)] = i # [Suc i ..< Suc i + length xs]"
    by (subst upt_conv_Cons) simp_all
  then show ?case using Cons by simp
qed

lemma distinct_build_enum: "distinct (build_enum xs self i)"
proof -
  have "inj_on (\<lambda>j. PStr (''__index__'' @ str_nat j)) (set [i ..< i + length xs])"
    by (rule inj_onI) (auto dest: str_nat_inj)
  then have "distinct (map index (build_enum xs self i))"
    unfolding index_build_enum by (simp add: distinct_map)
  then show ?thesis by (simp add: distinct_map)
qed

lemma distinct_build_items: "distinct (map fst kvs) \<Longrightarrow> distinct (build_items kvs self i)"
proof -
  assume "distinct (map fst kvs)"
  then have "distinct (map index (build_items kvs self i))" by (simp add: index_build_items)
  then show ?thesis by (simp add: distinct_map)
qed

lemma distinct_children_build:
  "wf_data d \<Longrightarrow> children (build d idx par self) = Some cs \<Longrightarrow> distinct cs"
  by (cases d) (auto simp: distinct_build_items distinct_build_enum)

lemma count_list_distinct: "distinct cs \<Longrightarrow> x \<in> set cs \<Longrightarrow> count_list cs x = 1"
  by (induction cs) (auto simp: count_list_0_iff)

lemma children_None_build:
  "(children (build d idx par self) = None) =
     (case d of PDict kvs \<Rightarrow> kvs = [] | PSeq k xs \<Rightarrow> xs = [] | _ \<Rightarrow> True)"
  by (cases d) auto

lemma children_not_empty_build: "children (build d idx par self) \<noteq> Some []"
  by (cases d) auto



lemma descendants_list_mem:
  "(p, c) \<in> set (descendants_list n cs) \<longleftrightarrow>
     (p = n \<and> c \<in> set cs) \<or> (\<exists>c' \<in> set cs. (p, c) \<in> set (descendants c'))"
  by (induction cs) auto

lemma descendants_node_at:
  "(p, c) \<in> set (descendants n) \<Longrightarrow>
     \<exists>a cs i. node_at n a = Some p \<and> children p = Some cs \<and> i < length cs \<and> cs ! i = c"
  and "(p, c) \<in> set (descendants_list m l) \<Longrightarrow>
     (p = m \<and> c \<in> set l) \<or>
     (\<exists>j < length l. \<exists>a cs i. node_at (l ! j) a = Some p \<and> children p = Some cs
          \<and> i < length cs \<and> cs ! i = c)"
proof (induction n and m l rule: descendants_descendants_list.induct)
  case (1 d i p t v)
  then show ?case by simp
next
  case (2 d i' p' t cs v)
  let ?n = "Element d i' p' t (Some cs) v"
  from 2 have "(p = ?n \<and> c \<in> set cs) \<or>
     (\<exists>j < length cs. \<exists>a cs' i. node_at (cs ! j) a = Some p \<and> children p = Some cs'
          \<and> i < length cs' \<and> cs' ! i = c)" by simp
  then show ?case
  proof
    assume a: "p = ?n \<and> c \<in> set cs"
    then obtain i where "i < length cs" "cs ! i = c" by (auto simp: in_set_conv_nth)
    with a show ?thesis by (intro exI[of _ "[]"] exI[of _ cs] exI[of _ i]) simp
  next
    assume "\<exists>j < length cs. \<exists>a cs' i. node_at (cs ! j) a = Some p \<and> children p = Some cs'
          \<and> i < length cs' \<and> cs' ! i = c"
    then obtain j a cs' i where j: "j < length cs" and a: "node_at (cs ! j) a = Some p"
      and r: "children p = Some cs'" "i < length cs'" "cs' ! i = c" by blast
    from j a have "node_at ?n (j # a) = Some p" by simp
    with r show ?thesis by blast
  qed
next
  case (3 n)
  then show ?case by simp
next
  case (4 n c' cs)
  from "4.prems" consider "p = n \<and> c = c'" | "(p, c) \<in> set (descendants c')"
    | "(p, c) \<in> set (descendants_list n cs)" by auto
  then show ?case
  proof cases
    case 1
    then show ?thesis by simp
  next
    case 2
    from "4.IH"(1)[OF 2] show ?thesis by (intro disjI2 exI[of _ 0]) simp
  next
    case 3
    from "4.IH"(2)[OF 3] show ?thesis
    proof
      assume "p = n \<and> c \<in> set cs" then show ?thesis by simp
    next
      assume "\<exists>j<length cs. \<exists>a cs' i. node_at (cs ! j) a = Some p \<and> children p = Some cs' \<and> i < length cs' \<and> cs' ! i = c"
      then obtain j where "j < length cs" "\<exists>a cs' i. node_at (cs ! j) a = Some p \<and> children p = Some cs' \<and> i < length cs' \<and> cs' ! i = c"
        by blast
      then show ?thesis by (intro disjI2 exI[of _ "Suc j"]) simp
    qed
  qed
qed

lemma find_rec_sound:
  "set (snd (find_rec re V n lk acc)) \<subseteq>
     set acc \<union> {c. \<exists>p. (p, c) \<in> set (descendants n) \<and> is_dict p}"
  and find_loop_sound:
  "is_dict m = (\<not> nl) \<Longrightarrow>
   set (snd (find_loop re V nl cs lk acc)) \<subseteq>
     set acc \<union> {c. \<exists>p. (p, c) \<in> set (descendants_list m cs) \<and> is_dict p}"
proof (induction re V n lk acc and re V nl cs lk acc arbitrary: and m rule: find_rec_find_loop.induct)
  case (1 re V d i p t v lk result)
  then show ?case by simp
next
  case (2 re V d i p t cs v lk result)
  show ?case
  proof (cases "t = ''dict'' \<or> t = ''list''")
    case True
    then have "is_dict (Element d i p t (Some cs) v) = (\<not> (t = ''list''))" by (auto simp: is_dict_def)
    from "2.IH"[OF True this] True show ?thesis by simp
  next
    case False
    then show ?thesis by simp
  qed
next
  case (3 re V node_is_list lk result)
  then show ?case by simp
next
  case (4 re V nl child rest lk result)
  note nd = "4.prems"
  let ?D = "\<lambda>l. {c. \<exists>p. (p, c) \<in> set l \<and> is_dict p}"
  have split: "?D (descendants_list m (child # rest)) =
      (if is_dict m then {child} else {}) \<union> ?D (descendants child) \<union> ?D (descendants_list m rest)"
    by auto
  show ?case
  proof (cases nl)
    case True
    show ?thesis
    proof (cases "is_element child")
      case ie: True
      obtain e r where fc: "find_rec re V child lk result = (e, r)" by (cases "find_rec re V child lk result")
      have r: "set r \<subseteq> set result \<union> ?D (descendants child)"
        using "4.IH"(1)[OF True ie] fc by simp
      show ?thesis
      proof (cases e)
        case None
        from "4.IH"(2)[OF True ie fc[symmetric, unfolded None] _ nd]
        have "set (snd (find_loop re V nl rest lk r)) \<subseteq> set r \<union> ?D (descendants_list m rest)" by simp
        with r show ?thesis unfolding split using True ie fc None by auto
      next
        case (Some a)
        with r show ?thesis unfolding split using True ie fc by auto
      qed
    next
      case ie: False
      from "4.IH"(3)[OF True ie nd] show ?thesis unfolding split using True ie by auto
    qed
  next
    case False
    then have isd: "is_dict m" using nd by simp
    show ?thesis
    proof (cases "is_left_matched re lk (index child)")
      case (Inl e)
      then show ?thesis using False by simp
    next
      case (Inr lm)
      define step where "step = (if lm then
                      (if is_right lk then
                         (case is_right_matched re V lk (data child) of
                            Inl e \<Rightarrow> Inl e
                          | Inr rm \<Rightarrow> Inr (if rm then result @ [child] else result))
                       else Inr (result @ [child]))
                    else (Inr result :: py_error + element list))"
      show ?thesis
      proof (cases step)
        case (Inl e)
        then show ?thesis using False Inr by (simp add: step_def[symmetric])
      next
        case r1: (Inr r1)
        have r1s: "set r1 \<subseteq> set result \<union> {child}"
          using r1 by (auto simp: step_def split: if_splits sum.splits)
        show ?thesis
        proof (cases "is_element child")
          case ie: True
          obtain e r where fc: "find_rec re V child lk r1 = (e, r)" by (cases "find_rec re V child lk r1")
          have r: "set r \<subseteq> set r1 \<union> ?D (descendants child)"
            using "4.IH"(4)[OF False Inr r1[unfolded step_def] ie] fc by simp
          show ?thesis
          proof (cases e)
            case None
            from "4.IH"(5)[OF False Inr r1[unfolded step_def] ie fc[symmetric, unfolded None] _ nd]
            have "set (snd (find_loop re V nl rest lk r)) \<subseteq> set r \<union> ?D (descendants_list m rest)" by simp
            with r r1s show ?thesis unfolding split
              using False Inr r1 ie fc None isd by (auto simp: step_def[symmetric])
          next
            case (Some a)
            with r r1s show ?thesis unfolding split
              using False Inr r1 ie fc isd by (auto simp: step_def[symmetric])
          qed
        next
          case ie: False
          from "4.IH"(6)[OF False Inr r1[unfolded step_def] ie nd] r1s
          show ?thesis unfolding split
            using False Inr r1 ie isd by (auto simp: step_def[symmetric])
        qed
      qed
    qed
  qed
qed



lemma find_matches_dict_children:
  assumes "r \<in> set (snd (find_rec re V (build d idx par []) lk []))"
  shows "\<exists>a p kvs cs. parent r = Some a \<and> node_at (build d idx par []) a = Some p \<and>
           data p = PDict kvs \<and> is_dict p \<and> children p = Some cs \<and> r \<in> set cs"
proof -
  let ?root = "build d idx par []"
  from assms find_rec_sound[of re V ?root lk "[]"]
  obtain p where pr: "(p, r) \<in> set (descendants ?root)" and isd: "is_dict p" by auto
  from descendants_node_at(1)[OF pr] obtain a cs i where
    a: "node_at ?root a = Some p" and cs: "children p = Some cs" and i: "i < length cs"
    and r: "cs ! i = r" by blast
  from node_at_build[OF a] obtain d' idx' par' where p: "p = build d' idx' par' a" by auto
  from isd p obtain kvs where d': "d' = PDict kvs"
    by (cases d') (auto simp: is_dict_def)
  from child_of_build[OF cs[unfolded p] i] r have "parent r = Some a" by auto
  moreover have "r \<in> set cs" using i r by auto
  ultimately show ?thesis using a cs isd p d' by auto
qed



lemma is_element_relabel [simp]: "is_element (relabel f c) = is_element c"
  by (simp add: relabel_def is_element_def has_children_def)





lemma node_at_root:
  assumes "node_at (Element_root d) a = Some n"
  shows "\<exists>d' idx'. n = build d' idx' (if a = [] then None else Some (butlast a)) a \<and>
           (wf_data d \<longrightarrow> wf_data d')"
proof -
  from node_at_build[OF assms[unfolded Element_root_def]] obtain d' idx' par' where
    "n = build d' idx' par' ([] @ a)" "wf_data d \<longrightarrow> wf_data d'"
    "par' = (if a = [] then None else Some ([] @ butlast a))" by blast
  then show ?thesis by (intro exI[of _ d'] exI[of _ idx']) simp
qed


section \<open>The projector\<close>


lemma filter_predicate_total:
  "\<forall>r \<in> set records. parent_data root r = Inr (pd r) \<and> f (pd r) = Inr (keep r) \<Longrightarrow>
   filter_predicate f root records = Inr (filter keep records)"
  by (induction records) auto

lemma fromkeys_set [simp]: "set (fromkeys cols) = set cols"
  by (simp add: fromkeys_def)

lemma dict_get_present: "dict_has kvs k \<Longrightarrow> dict_get kvs k dflt = the (map_of kvs k)"
  by (auto simp: dict_has_def dict_get_def map_of_eq_None_iff split: option.splits)

lemma list_all_dict_has: "list_all (dict_has kvs) (fromkeys cols) = (set cols \<subseteq> fst ` set kvs)"
  by (auto simp: list_all_iff dict_has_def)

lemma select_columns_total:
  "\<forall>r \<in> set lst. parent_data root r = Inr (PDict (rec r)) \<Longrightarrow>
   select_columns cols root lst =
     Inr (concat (map (\<lambda>r. if set cols \<subseteq> fst ` set (rec r)
                           then [PDict (map (\<lambda>k. (k, the (map_of (rec r) k))) (fromkeys cols))]
                           else []) lst))"
proof (induction lst)
  case Nil
  then show ?case by simp
next
  case (Cons r lst)
  have "set cols \<subseteq> fst ` set (rec r) \<Longrightarrow>
        map (\<lambda>key. (key, dict_get (rec r) key PNone)) (fromkeys cols) =
        map (\<lambda>k. (k, the (map_of (rec r) k))) (fromkeys cols)"
    by (rule map_cong) (auto intro!: dict_get_present simp: dict_has_def)
  with Cons show ?case by (simp add: list_all_dict_has Let_def)
qed


section \<open>Sequence nodes and dictionary nodes in the finder\<close>






section \<open>The finder: what it collects, and in which order\<close>



text \<open>
  Claim C2. Where the tests of the lookup raise nothing, the finder leaves in the result
  list, after what the list held, exactly the children of dictionary nodes that pass the
  test, taken from all the descendants of the node at every depth, in pre-order: a matched
  child comes before the matches below it, and the nodes below a child are searched
  whether or not the child matched. The call raises only for a node that is an empty
  dictionary or sequence, whose \<open>children\<close> is \<open>None\<close>.
\<close>

theorem find_collects_matches_preorder:
  assumes "\<forall>(p, c) \<in> set (descendants (build d idx par self)).
             is_dict p \<longrightarrow> matched re V lk c = Inr (m c)"
  shows "find_rec re V (build d idx par self) lk acc =
           (if (is_dict (build d idx par self) \<or> is_list (build d idx par self))
               \<and> children (build d idx par self) = None
            then Some TypeError else None,
            acc @ select_matches m (descendants (build d idx par self)))"
  using find_rec_wf[OF wf_build(1) assms] .

theorem find_collects_matches_preorder_witness:
  "map (\<lambda>(p, c). (index c, matched py_re sample_validation sample_lookup c))
       (filter (\<lambda>(p, c). is_dict p) (descendants (build sample_data (PStr []) None []))) =
     [(PStr ''a'', Inr True), (PStr ''a'', Inr True), (PStr ''c'', Inr False),
      (PStr ''b'', Inr False), (PStr ''a'', Inr True)]
   \<and> find_rec py_re sample_validation (build sample_data (PStr []) None []) sample_lookup [] =
       (None,
        [build (PDict [(PStr ''a'', PInt 1), (PStr ''c'', PSeq ListK [])]) (PStr ''a'') (Some []) [0],
         build (PInt 1) (PStr ''a'') (Some [0]) [0, 0],
         build (PInt 2) (PStr ''a'') (Some [1, 0]) [1, 0, 0]])"
proof -
  have t: "map (\<lambda>(p, c). (index c, matched py_re sample_validation sample_lookup c))
       (filter (\<lambda>(p, c). is_dict p) (descendants (build sample_data (PStr []) None []))) =
     [(PStr ''a'', Inr True), (PStr ''a'', Inr True), (PStr ''c'', Inr False),
      (PStr ''b'', Inr False), (PStr ''a'', Inr True)]"
    by code_simp
  have h: "\<forall>(p, c) \<in> set (descendants (build sample_data (PStr []) None [])).
      is_dict p \<longrightarrow> matched py_re sample_validation sample_lookup c = Inr (index c = PStr ''a'')"
    by code_simp
  have e: "select_matches (\<lambda>c. index c = PStr ''a'') (descendants (build sample_data (PStr []) None [])) =
        [build (PDict [(PStr ''a'', PInt 1), (PStr ''c'', PSeq ListK [])]) (PStr ''a'') (Some []) [0],
         build (PInt 1) (PStr ''a'') (Some [0]) [0, 0],
         build (PInt 2) (PStr ''a'') (Some [1, 0]) [1, 0, 0]]"
    by code_simp
  have c: "\<not> ((is_dict (build sample_data (PStr []) None []) \<or> is_list (build sample_data (PStr []) None []))
               \<and> children (build sample_data (PStr []) None []) = None)"
    by code_simp
  show ?thesis
    using t find_collects_matches_preorder[OF h, of "[]"] e c by simp
qed

section \<open>The indexed accessor on slice expressions\<close>


lemma get_examples:
  "get sample_list (PStr ''1:3'') PNone False = Inr (PSeq ListK [PStr ''b'', PStr ''c''])"
  "get (PSeq ListK [PStr ''a'', PStr ''b'', PStr ''c'']) (PStr ''5'') (PStr ''default'') False
     = Inr (PStr ''default'')"
  "get (PDict [(PStr ''x'', PInt 1)]) (PStr ''y'') (PInt 42) False = Inr (PInt 42)"
  "get sample_list (PStr ''-1'') PNone False = Inr (PStr ''d'')"
  "get sample_list (PStr ''::2'') PNone False = Inr (PSeq ListK [PStr ''a'', PStr ''c''])"
  "get sample_list (PStr ''a:3'') (PStr ''default'') False = Inr (PStr ''default'')"
  "get sample_list (PStr ''1:2:3:4'') (PStr ''default'') False = Inr (PStr ''default'')"
  by code_simp+

text \<open>
  Claim C3. With \<open>on_exception\<close> false, a bare integer string indexes by position, a
  string with one or two colons whose components are empty or integers gives the slice,
  any other component gives the default. The accessor checks each component against its
  integer pattern \<open>-?[0-9]+$\<close> but goes on to \<open>int()\<close> as soon as one component passes
  (\<open>any(chks)\<close>): on \<open>["a", "b", "c", "d"]\<close> the index \<open>+1:3\<close>, whose first component
  fails the check, gives the slice \<open>["b", "c"]\<close>, while \<open>+1\<close> alone and \<open>+1:+3\<close> give the
  default.
\<close>

theorem get_slice_component_check_uses_any:
  "slice_check ''+1'' = False \<and> slice_check ''3'' = True \<and>
   get sample_list (PStr ''+1:3'') (PStr ''default'') False
     = Inr (PSeq ListK [PStr ''b'', PStr ''c'']) \<and>
   get sample_list (PStr ''+1:+3'') (PStr ''default'') False = Inr (PStr ''default'') \<and>
   get sample_list (PStr ''+1'') (PStr ''default'') False = Inr (PStr ''default'')"
  by code_simp


section \<open>Column-select projection\<close>

text \<open>
  Claim C7. Under a column-select (neither zero-select nor all-select), where the parent of
  every record is a dictionary and the predicate, if there is one, raises on none of them:
  the output has, for each record that the predicate keeps and whose parent's dictionary
  has every requested column, in the order of the records, one new dictionary, whose keys
  are the requested columns (each once, in their order) and whose values are the parent's
  values for them; a record whose parent lacks a requested column contributes nothing.
\<close>

theorem column_select_drops_incomplete_records:
  assumes "SelectParser stmt = Inr sel"
    and "\<not> is_zero_select sel" and "\<not> is_all_select sel"
    and "\<forall>r \<in> set records. parent_data root r = Inr (PDict (rec r))"
    and "case predicate sel of
           None \<Rightarrow> \<forall>r \<in> set records. keep r
         | Some f \<Rightarrow> \<forall>r \<in> set records. f (PDict (rec r)) = Inr (keep r)"
  shows "filter_result SelectParser root records stmt =
     Inr (concat (map (\<lambda>r. if keep r \<and> set (columns sel) \<subseteq> fst ` set (rec r)
                           then [PDict (map (\<lambda>k. (k, the (map_of (rec r) k))) (fromkeys (columns sel)))]
                           else []) records))"
proof -
  let ?out = "\<lambda>r. if set (columns sel) \<subseteq> fst ` set (rec r)
                           then [PDict (map (\<lambda>k. (k, the (map_of (rec r) k))) (fromkeys (columns sel)))]
                           else []"
  have lst: "(case predicate sel of
                   Some f \<Rightarrow> filter_predicate f root records
                 | None \<Rightarrow> Inr records) = Inr (filter keep records)"
  proof (cases "predicate sel")
    case None
    with assms(5) have "filter keep records = records" by (simp add: filter_id_conv)
    with None show ?thesis by simp
  next
    case (Some f)
    with assms(4,5) have "\<forall>r \<in> set records. parent_data root r = Inr (PDict (rec r)) \<and>
        f (PDict (rec r)) = Inr (keep r)" by simp
    from filter_predicate_total[of records root "\<lambda>r. PDict (rec r)" f keep, OF this] Some
    show ?thesis by simp
  qed
  have "\<forall>r \<in> set (filter keep records). parent_data root r = Inr (PDict (rec r))"
    using assms(4) by simp
  from select_columns_total[OF this, of "columns sel"]
  have "select_columns (columns sel) root (filter keep records) =
        Inr (concat (map ?out (filter keep records)))" .
  also have "concat (map ?out (filter keep records)) =
      concat (map (\<lambda>r. if keep r \<and> set (columns sel) \<subseteq> fst ` set (rec r)
                           then [PDict (map (\<lambda>k. (k, the (map_of (rec r) k))) (fromkeys (columns sel)))]
                           else []) records)"
    by (induction records) auto
  finally show ?thesis using assms(1,2,3) lst by (simp add: filter_result_def)
qed




theorem column_select_drops_incomplete_records_witness:
  "map (parent_data (Element_root sample_data))
     (snd (find_rec py_re sample_validation (Element_root sample_data) sample_lookup [])) =
     [Inr sample_data,
      Inr (PDict [(PStr ''a'', PInt 1), (PStr ''c'', PSeq ListK [])]),
      Inr (PDict [(PStr ''a'', PInt 2)])] \<and>
   filter_result sample_select (Element_root sample_data)
     (snd (find_rec py_re sample_validation (Element_root sample_data) sample_lookup [])) ''a, c'' =
     Inr [PDict [(PStr ''a'', PInt 1), (PStr ''c'', PSeq ListK [])]]"
proof -
  let ?root = "Element_root sample_data"
  let ?records = "snd (find_rec py_re sample_validation ?root sample_lookup [])"
  let ?sel = "\<lparr> predicate = Some (\<lambda>d. Inr (case d of PDict kvs \<Rightarrow> dict_has kvs (PStr ''a'') | _ \<Rightarrow> False)),
           is_zero_select = False, is_all_select = False,
           columns = [PStr ''a'', PStr ''c''] \<rparr>"
  have m: "map (parent_data ?root) ?records =
     [Inr sample_data,
      Inr (PDict [(PStr ''a'', PInt 1), (PStr ''c'', PSeq ListK [])]),
      Inr (PDict [(PStr ''a'', PInt 2)])]"
    by code_simp
  have h1: "sample_select ''a, c'' = Inr ?sel" by (simp add: sample_select_def)
  have h2: "\<not> is_zero_select ?sel" and h3: "\<not> is_all_select ?sel" by simp_all
  have h4: "\<forall>r \<in> set ?records. parent_data ?root r = Inr (PDict (parent_items ?root r))"
    by code_simp
  have h5: "case predicate ?sel of
           None \<Rightarrow> \<forall>r \<in> set ?records. True
         | Some f \<Rightarrow> \<forall>r \<in> set ?records. f (PDict (parent_items ?root r)) = Inr True"
    by code_simp
  have e: "concat (map (\<lambda>r. if True \<and> set (columns ?sel) \<subseteq> fst ` set (parent_items ?root r)
                           then [PDict (map (\<lambda>k. (k, the (map_of (parent_items ?root r) k))) (fromkeys (columns ?sel)))]
                           else []) ?records) = [PDict [(PStr ''a'', PInt 1), (PStr ''c'', PSeq ListK [])]]"
    by code_simp
  from column_select_drops_incomplete_records[of sample_select "''a, c''" ?sel ?records ?root
      "parent_items ?root" "\<lambda>r. True", OF h1 h2 h3 h4 h5] e m
  show ?thesis by simp
qed


section \<open>The invariant of the node tree\<close>

text \<open>
  Claim C9. In the tree built over any data, at every address: the \<open>children\<close> of the node
  is never an empty list; it is \<open>None\<close> exactly when the node's data is an empty
  dictionary, an empty sequence, or not a dictionary or sequence at all; the root has no
  parent; and a node below the root refers to the node one step up as its parent, whose
  \<open>children\<close> holds it, at the last position of its address, exactly once.
\<close>

theorem build_children_and_parent_invariant:
  assumes "wf_data d" and "node_at (Element_root d) a = Some n"
  shows "children n \<noteq> Some [] \<and>
         (children n = None \<longleftrightarrow>
            (case data n of PDict kvs \<Rightarrow> kvs = [] | PSeq k xs \<Rightarrow> xs = [] | _ \<Rightarrow> True)) \<and>
         (if a = [] then parent n = None
          else parent n = Some (butlast a) \<and>
            (\<exists>p cs. node_at (Element_root d) (butlast a) = Some p \<and> children p = Some cs \<and>
               last a < length cs \<and> cs ! last a = n \<and> count_list cs n = 1))"
proof -
  let ?root = "Element_root d"
  from node_at_root[OF assms(2)] obtain d' idx' par' where
    n: "n = build d' idx' par' a" and par: "par' = (if a = [] then None else Some (butlast a))"
    by blast
  have c1: "children n \<noteq> Some []" using n by (simp add: children_not_empty_build)
  have c2: "children n = None \<longleftrightarrow>
            (case data n of PDict kvs \<Rightarrow> kvs = [] | PSeq k xs \<Rightarrow> xs = [] | _ \<Rightarrow> True)"
    using n by (simp add: children_None_build)
  have c3: "if a = [] then parent n = None
          else parent n = Some (butlast a) \<and>
            (\<exists>p cs. node_at ?root (butlast a) = Some p \<and> children p = Some cs \<and>
               last a < length cs \<and> cs ! last a = n \<and> count_list cs n = 1)"
  proof (cases "a = []")
    case True
    then show ?thesis using n par by simp
  next
    case False
    then have a: "a = butlast a @ [last a]" by simp
    from assms(2) have "node_at ?root (butlast a @ [last a]) = Some n" using a by simp
    then obtain p where p: "node_at ?root (butlast a) = Some p" and pn: "node_at p [last a] = Some n"
      by (auto simp: node_at_append split: option.splits)
    from pn obtain cs where cs: "children p = Some cs" and l: "last a < length cs"
      and nn: "cs ! last a = n" by (auto split: option.splits if_splits)
    from node_at_root[OF p] assms(1) obtain dp ip pp where
      pb: "p = build dp ip pp (butlast a)" and wp: "wf_data dp" by blast
    have "distinct cs" using distinct_children_build[OF wp] cs pb by simp
    moreover have "n \<in> set cs" using l nn by auto
    ultimately have "count_list cs n = 1" by (rule count_list_distinct)
    with False n par p cs l nn show ?thesis by auto
  qed
  from c1 c2 c3 show ?thesis by blast
qed

theorem build_children_and_parent_invariant_witness:
  "wf_data sample_data \<and>
   node_at (Element_root sample_data) [1, 0] =
     Some (build (PDict [(PStr ''a'', PInt 2)]) (PStr ''__index__0'') (Some [1]) [1, 0]) \<and>
   node_at (Element_root sample_data) [0, 1] =
     Some (build (PSeq ListK []) (PStr ''c'') (Some [0]) [0, 1]) \<and>
   children (build (PSeq ListK []) (PStr ''c'') (Some [0]) [0, 1]) = None \<and>
   parent (build (PSeq ListK []) (PStr ''c'') (Some [0]) [0, 1]) = Some [0] \<and>
   (\<exists>p cs. node_at (Element_root sample_data) [0] = Some p \<and> children p = Some cs \<and>
      cs ! 1 = build (PSeq ListK []) (PStr ''c'') (Some [0]) [0, 1] \<and>
      count_list cs (build (PSeq ListK []) (PStr ''c'') (Some [0]) [0, 1]) = 1)"
proof -
  have w: "wf_data sample_data" by code_simp
  have n1: "node_at (Element_root sample_data) [1, 0] =
     Some (build (PDict [(PStr ''a'', PInt 2)]) (PStr ''__index__0'') (Some [1]) [1, 0])"
    by code_simp
  have n2: "node_at (Element_root sample_data) [0, 1] =
     Some (build (PSeq ListK []) (PStr ''c'') (Some [0]) [0, 1])"
    by code_simp
  from build_children_and_parent_invariant[OF w n2] w n1 n2 show ?thesis by auto
qed


section \<open>The records of the finder and the projector\<close>

text \<open>
  Claim C10. Every record that the finder leaves in the result list, run on the tree of any
  data with any lookup, is a child of a dictionary node: its \<open>parent\<close> is not \<open>None\<close>, the
  node it refers to is of type \<open>dict\<close> and holds the record among its children, and
  \<open>record.parent.data\<close>, which the projector passes to the predicate, returns for an
  all-select and reads the columns from, is a dictionary.
\<close>

theorem find_records_have_dict_parent:
  assumes "r \<in> set (snd (find_rec re V (Element_root d) lk []))"
  shows "\<exists>a p kvs cs. parent r = Some a \<and> node_at (Element_root d) a = Some p \<and>
           is_dict p \<and> children p = Some cs \<and> r \<in> set cs \<and> data p = PDict kvs \<and>
           parent_data (Element_root d) r = Inr (PDict kvs)"
proof -
  from find_matches_dict_children[OF assms[unfolded Element_root_def]]
  obtain a p kvs cs where "parent r = Some a" "node_at (Element_root d) a = Some p"
    "data p = PDict kvs" "is_dict p" "children p = Some cs" "r \<in> set cs"
    unfolding Element_root_def by blast
  then show ?thesis by (auto simp: parent_data_def)
qed


theorem find_records_have_dict_parent_witness:
  "build (PInt 2) (PStr ''a'') (Some [1, 0]) [1, 0, 0]
     \<in> set (snd (find_rec py_re sample_validation (Element_root sample_data) sample_lookup []))
   \<and> (\<exists>a p kvs cs. parent (build (PInt 2) (PStr ''a'') (Some [1, 0]) [1, 0, 0]) = Some a \<and>
         node_at (Element_root sample_data) a = Some p \<and> is_dict p \<and> children p = Some cs \<and>
         build (PInt 2) (PStr ''a'') (Some [1, 0]) [1, 0, 0] \<in> set cs \<and> data p = PDict kvs \<and>
         parent_data (Element_root sample_data) (build (PInt 2) (PStr ''a'') (Some [1, 0]) [1, 0, 0])
           = Inr (PDict kvs))
   \<and> parent_data (Element_root sample_data) (build (PInt 2) (PStr ''a'') (Some [1, 0]) [1, 0, 0])
       = Inr (PDict [(PStr ''a'', PInt 2)])"
proof -
  have h: "build (PInt 2) (PStr ''a'') (Some [1, 0]) [1, 0, 0]
     \<in> set (snd (find_rec py_re sample_validation (Element_root sample_data) sample_lookup []))"
    by code_simp
  have e: "parent_data (Element_root sample_data) (build (PInt 2) (PStr ''a'') (Some [1, 0]) [1, 0, 0])
       = Inr (PDict [(PStr ''a'', PInt 2)])"
    by code_simp
  show ?thesis using h find_records_have_dict_parent[OF h] e by blast
qed


end
